theory Spec2Isabelle
  imports Main "HOL-Library.Word" "HOL-Library.Monad_Syntax"
begin

section \<open>Tree extraction (\<^verbatim>\<open>src/main.cpp\<close>): the data\<close>

text \<open>
  The program reads a tree file with the Nexus Class Library, and writes every tree it
  holds to a file of its own. Strings are \<^verbatim>\<open>std::string\<close>: byte lists, here
  \<^typ>\<open>string\<close>. A function of the model returns an \<^typ>\<open>'a option\<close> when the source
  has a loop: \<^term>\<open>None\<close> is a run that never returns.
\<close>

text \<open>
  Modelled from the spec: \<^verbatim>\<open>tree_info.h\<close>, which declares \<^verbatim>\<open>tree_info\<close>, is not
  among the sources. A tree record has a name, empty when the input did not label the
  tree, and a Newick string without the closing semicolon; \<^verbatim>\<open>extract_trees\<close> reads
  them through \<^verbatim>\<open>get_name()\<close> and \<^verbatim>\<open>get_newick()\<close>.
\<close>

record tree_info =
  get_name :: string
  get_newick :: string

text \<open>
  What \<^verbatim>\<open>parser.parse(in)\<close> can throw, seen from the three handlers of
  \<^verbatim>\<open>parse_input\<close>: an \<^verbatim>\<open>NxsException\<close> with its \<^verbatim>\<open>nxs_what()\<close>, another
  \<^verbatim>\<open>std::exception\<close> with the \<^verbatim>\<open>what()\<close> of the copy the handler receives, or
  anything else.
\<close>

datatype thrown = NxsException string | Std_exception string | Other_thrown

text \<open>
  One call of \<^verbatim>\<open>parser.parse(in)\<close>: what it threw, if anything, and the trees that
  \<^verbatim>\<open>parser.get_trees()\<close> returns afterwards.
\<close>

record parse_outcome =
  raised :: "thrown option"
  collected :: "tree_info list"

text \<open>
  The program's surroundings, which the source only calls: the result of
  \<^verbatim>\<open>MultiFormatReader::getFormatNames()\<close>, the text that \<^verbatim>\<open>operator<<\<close> prints for
  the option description \<^verbatim>\<open>desc\<close>, the parsing library (by the format name the
  parser was built with and by what the input stream holds, \<^term>\<open>None\<close> for a file
  that cannot be read), and the paths that can be opened for writing.
\<close>

record env =
  getFormatNames :: "string list"
  desc :: string
  parse :: "string \<Rightarrow> string option \<Rightarrow> parse_outcome"
  writable :: "string \<Rightarrow> bool"

text \<open>What a run changes: the files, and the two output streams.\<close>

record world =
  files :: "string \<rightharpoonup> string"
  cout :: string
  cerr :: string

text \<open>\<^verbatim>\<open>endl\<close> writes a newline (and flushes).\<close>

definition endl :: string where
  "endl = [CHR 0x0A]"

definition tab :: string where
  "tab = [CHR 0x09]"

text \<open>
  \<^verbatim>\<open>c_str()\<close> hands a NUL-terminated array to \<^verbatim>\<open>open\<close>, which reads it up to the
  first NUL byte.
\<close>

definition c_str :: "string \<Rightarrow> string" where
  "c_str s = takeWhile (\<lambda>c. c \<noteq> CHR 0x00) s"

section \<open>The format catalog\<close>

text \<open>
  \<^verbatim>\<open>is_valid_format\<close>, lines 99-107. The counter is an \<^verbatim>\<open>unsigned\<close>, 32 bits wide,
  compared with a \<^verbatim>\<open>size_t\<close>: on a vector of \<open>2 ^ 32\<close> names or more it wraps to 0
  before it reaches the size.
\<close>

partial_function (option) is_valid_format_loop ::
  "string list \<Rightarrow> string \<Rightarrow> 32 word \<Rightarrow> bool option" where
  "is_valid_format_loop format_names format i =
     (if unat i < length format_names then
        (if format_names ! unat i = format then Some True
         else is_valid_format_loop format_names format (i + 1))
      else Some False)"

definition is_valid_format :: "env \<Rightarrow> string \<Rightarrow> bool option" where
  "is_valid_format e format = is_valid_format_loop (getFormatNames e) format 0"

text \<open>\<^verbatim>\<open>display_valid_formats\<close>, lines 112-117, with the same counter.\<close>

partial_function (option) display_valid_formats_loop ::
  "string list \<Rightarrow> 32 word \<Rightarrow> world \<Rightarrow> world option" where
  "display_valid_formats_loop format_names i w =
     (if unat i < length format_names then
        display_valid_formats_loop format_names (i + 1)
          (w\<lparr>cerr := cerr w @ tab @ format_names ! unat i @ endl\<rparr>)
      else Some w)"

definition display_valid_formats :: "env \<Rightarrow> world \<Rightarrow> world option" where
  "display_valid_formats e w = display_valid_formats_loop (getFormatNames e) 0 w"

section \<open>The file writer\<close>

text \<open>
  An \<^verbatim>\<open>ofstream\<close>: the file it is open on, the characters it holds that have not
  reached the file yet, and its failure flag. No call of the program changes the
  exception mask, so a failing stream operation sets the flag and returns.
\<close>

record ofstream =
  open_file :: "string option"
  pending :: string
  failbit :: bool

definition ofstream_new :: ofstream where
  "ofstream_new = \<lparr>open_file = None, pending = [], failbit = False\<rparr>"

text \<open>
  \<^verbatim>\<open>out.open(path)\<close> with the default mode of an \<^verbatim>\<open>ofstream\<close> creates the file or
  truncates it; when the file cannot be opened, or the stream is open already, the
  stream fails.
\<close>

definition ofstream_open :: "env \<Rightarrow> string \<Rightarrow> ofstream \<times> world \<Rightarrow> ofstream \<times> world" where
  "ofstream_open e path s =
     (case s of (out, w) \<Rightarrow>
        if open_file out = None \<and> writable e path
        then (out\<lparr>open_file := Some path\<rparr>, w\<lparr>files := (files w)(path \<mapsto> [])\<rparr>)
        else (out\<lparr>failbit := True\<rparr>, w))"

text \<open>\<^verbatim>\<open>out << text\<close>: nothing is written through a stream that has failed.\<close>

definition ofstream_put :: "string \<Rightarrow> ofstream \<times> world \<Rightarrow> ofstream \<times> world" where
  "ofstream_put text s =
     (case s of (out, w) \<Rightarrow>
        if failbit out then (out, w)
        else if open_file out = None then (out\<lparr>failbit := True\<rparr>, w)
        else (out\<lparr>pending := pending out @ text\<rparr>, w))"

text \<open>
  \<^verbatim>\<open>out.close()\<close> writes the pending characters to the file and closes it; on a
  stream that is not open it sets the failure flag.
\<close>

definition ofstream_close :: "ofstream \<times> world \<Rightarrow> ofstream \<times> world" where
  "ofstream_close s =
     (case s of (out, w) \<Rightarrow>
        (case open_file out of
           None \<Rightarrow> (out\<lparr>failbit := True\<rparr>, w)
         | Some path \<Rightarrow>
             (out\<lparr>open_file := None, pending := []\<rparr>,
              w\<lparr>files := (files w)
                   (path \<mapsto> (case files w path of None \<Rightarrow> [] | Some old \<Rightarrow> old) @ pending out)\<rparr>)))"

text \<open>
  \<^verbatim>\<open>spit_newick\<close>, lines 158-163: the stream when the function returns, and the world
  it leaves.
\<close>

definition spit_newick_out :: "env \<Rightarrow> string \<Rightarrow> string \<Rightarrow> world \<Rightarrow> ofstream \<times> world" where
  "spit_newick_out e contents filename w =
     ofstream_close
       (ofstream_put '';''
          (ofstream_put contents
             (ofstream_open e (c_str filename) (ofstream_new, w))))"

definition spit_newick :: "env \<Rightarrow> string \<Rightarrow> string \<Rightarrow> world \<Rightarrow> world" where
  "spit_newick e contents filename w = snd (spit_newick_out e contents filename w)"

section \<open>Parsing\<close>

text \<open>
  Modelled from the spec: \<^verbatim>\<open>tree_parser.h\<close>, which declares \<^verbatim>\<open>tree_parser\<close>, is
  not among the sources. The parser is built from the format name; \<^verbatim>\<open>parse\<close> decodes
  the input stream, and \<^verbatim>\<open>get_trees()\<close> returns the trees it has found, in the order of
  the file.
\<close>

record tree_parser =
  parser_format :: string
  get_trees :: "tree_info list"

definition tree_parser_new :: "string \<Rightarrow> tree_parser" where
  "tree_parser_new format = \<lparr>parser_format = format, get_trees = []\<rparr>"

text \<open>How a function stops short of its end: a call of \<^verbatim>\<open>exit\<close>, or \<^verbatim>\<open>throw no_trees\<close>.\<close>

datatype stop = Exit_called int | Thrown_no_trees

text \<open>
  \<^verbatim>\<open>parse_input\<close>, lines 171-187. The input stream is opened on \<^verbatim>\<open>input.c_str()\<close>
  and handed to the parser whether or not the file could be opened. The first two
  handlers print the message and call \<^verbatim>\<open>exit(1)\<close>; the last one prints and falls out
  of the \<^verbatim>\<open>try\<close> statement, so the function returns.
\<close>

definition parse_input ::
  "env \<Rightarrow> string \<Rightarrow> tree_parser \<Rightarrow> world \<Rightarrow> stop \<times> world + tree_parser \<times> world" where
  "parse_input e input parser w =
     (let result = parse e (parser_format parser) (files w (c_str input));
          parser' = parser\<lparr>get_trees := collected result\<rparr>
      in case raised result of
           None \<Rightarrow> Inr (parser', w)
         | Some (NxsException nxs_what) \<Rightarrow>
             Inl (Exit_called 1, w\<lparr>cerr := cerr w @ nxs_what @ endl\<rparr>)
         | Some (Std_exception what) \<Rightarrow>
             Inl (Exit_called 1, w\<lparr>cerr := cerr w @ what @ endl\<rparr>)
         | Some Other_thrown \<Rightarrow>
             Inr (parser',
                  w\<lparr>cerr := cerr w @ ''unknown exception occurred while parsing tree'' @ endl\<rparr>))"

section \<open>Extraction\<close>

text \<open>\<^verbatim>\<open>no_trees_exception::what()\<close>, lines 122-126.\<close>

definition no_trees_what :: string where
  "no_trees_what = ''the file was parsed successfully, but no trees were found''"

text \<open>
  \<^verbatim>\<open>boost::lexical_cast<string>(i)\<close> on an \<^verbatim>\<open>unsigned\<close>: its decimal digits, without
  leading zeros.
\<close>

definition digit :: "nat \<Rightarrow> char" where
  "digit d = ''0123456789'' ! d"

fun decimal :: "nat \<Rightarrow> string" where
  "decimal n = (if n < 10 then [digit n] else decimal (n div 10) @ [digit (n mod 10)])"

declare decimal.simps [simp del]

definition lexical_cast :: "32 word \<Rightarrow> string" where
  "lexical_cast i = decimal (unat i)"

text \<open>The body of the loop of \<^verbatim>\<open>extract_trees\<close>: lines 144-147, then all of 144-148.\<close>

definition output_name :: "string \<Rightarrow> 32 word \<Rightarrow> tree_info \<Rightarrow> string" where
  "output_name prefix i tree =
     (let name = get_name tree
      in if length name = 0 then prefix @ ''_'' @ lexical_cast i else name)"

definition extract_tree :: "env \<Rightarrow> string \<Rightarrow> 32 word \<Rightarrow> tree_info \<Rightarrow> world \<Rightarrow> world" where
  "extract_tree e prefix i tree w =
     spit_newick e (get_newick tree) (output_name prefix i tree @ ''.tre'') w"

text \<open>The loop, lines 142-149; its counter is an \<^verbatim>\<open>unsigned\<close> again.\<close>

partial_function (option) extract_trees_loop ::
  "env \<Rightarrow> string \<Rightarrow> tree_info list \<Rightarrow> 32 word \<Rightarrow> world \<Rightarrow> world option" where
  "extract_trees_loop e prefix trees i w =
     (if unat i < length trees then
        extract_trees_loop e prefix trees (i + 1)
          (extract_tree e prefix i (trees ! unat i) w)
      else Some w)"

text \<open>\<^verbatim>\<open>extract_trees\<close>, lines 135-150.\<close>

definition extract_trees ::
  "env \<Rightarrow> string \<Rightarrow> string \<Rightarrow> string \<Rightarrow> world \<Rightarrow> (stop \<times> world + world) option" where
  "extract_trees e input format prefix w =
     (case parse_input e input (tree_parser_new format) w of
        Inl stopped \<Rightarrow> Some (Inl stopped)
      | Inr (parser, w') \<Rightarrow>
          (let trees = get_trees parser
           in if length trees = 0 then Some (Inl (Thrown_no_trees, w'))
              else map_option Inr (extract_trees_loop e prefix trees 0 w')))"

section \<open>The program\<close>

text \<open>
  The variables map that \<^verbatim>\<open>po::store\<close> fills from the command line: whether
  \<^verbatim>\<open>--help\<close> was given, and the values of \<^verbatim>\<open>--input\<close>, \<^verbatim>\<open>--format\<close> and
  \<^verbatim>\<open>--prefix\<close>.
\<close>

record variables_map =
  opt_help :: bool
  opt_input :: "string option"
  opt_format :: "string option"
  opt_prefix :: "string option"

text \<open>
  How the process ends: \<^verbatim>\<open>main\<close> returns a status, \<^verbatim>\<open>exit\<close> is called with one, or
  an exception that nothing catches reaches \<^verbatim>\<open>std::terminate\<close>, which aborts the
  process; the exception's \<^verbatim>\<open>what()\<close> is kept.
\<close>

datatype outcome = Returned int | Exited int | Terminated string

fun exits_nonzero :: "outcome \<Rightarrow> bool" where
  "exits_nonzero (Returned status) = (status \<noteq> 0)"
| "exits_nonzero (Exited status) = (status \<noteq> 0)"
| "exits_nonzero (Terminated what) = True"

text \<open>\<^verbatim>\<open>main\<close>, lines 37-79, from the filled variables map on.\<close>

definition main :: "env \<Rightarrow> variables_map \<Rightarrow> world \<Rightarrow> (outcome \<times> world) option" where
  "main e vm w =
     (if opt_help vm then Some (Returned 0, w\<lparr>cout := cout w @ desc e @ endl\<rparr>)
      else case opt_input vm of
        None \<Rightarrow>
          Some (Returned 1,
                w\<lparr>cerr := cerr w @ ''required option, --input, missing'' @ endl @ desc e @ endl\<rparr>)
      | Some input \<Rightarrow>
          (case opt_format vm of
             None \<Rightarrow>
               Some (Returned 1,
                     w\<lparr>cerr := cerr w @ ''required option, --format, missing'' @ endl
                                @ desc e @ endl\<rparr>)
           | Some format \<Rightarrow>
               do {
                 valid \<leftarrow> is_valid_format e format;
                 if \<not> valid then
                   do {
                     w' \<leftarrow> display_valid_formats e
                             (w\<lparr>cerr := cerr w @ ''invalid input format: '' @ endl @ endl
                                         @ ''valid formats:'' @ endl\<rparr>);
                     Some (Returned 1, w')
                   }
                 else
                   do {
                     r \<leftarrow> extract_trees e input format
                            (case opt_prefix vm of Some p \<Rightarrow> p | None \<Rightarrow> ''tree'') w;
                     Some (case r of
                             Inl (Exit_called status, w') \<Rightarrow> (Exited status, w')
                           | Inl (Thrown_no_trees, w') \<Rightarrow> (Terminated no_trees_what, w')
                           | Inr w' \<Rightarrow> (Returned 0, w'))
                   }
               }))"

section \<open>Concrete runs\<close>

text \<open>
  A small setting to run the program in: a catalog of two formats, a parsing library
  that answers every call with the given outcome, and a choice of the paths that can be
  opened for writing.
\<close>

definition catalog_env :: "parse_outcome \<Rightarrow> (string \<Rightarrow> bool) \<Rightarrow> env" where
  "catalog_env result can_write =
     \<lparr>getFormatNames = [''nexus'', ''phyliptree''], desc = ''Allowed options'',
      parse = (\<lambda>format stream. result), writable = can_write\<rparr>"

definition parsed :: "tree_info list \<Rightarrow> parse_outcome" where
  "parsed ts = \<lparr>raised = None, collected = ts\<rparr>"

definition blank :: world where
  "blank = \<lparr>files = Map.empty, cout = [], cerr = []\<rparr>"

definition request :: variables_map where
  "request = \<lparr>opt_help = False, opt_input = Some ''in.nex'', opt_format = Some ''nexus'',
     opt_prefix = None\<rparr>"

definition named :: "string \<Rightarrow> string \<Rightarrow> tree_info" where
  "named n s = \<lparr>get_name = n, get_newick = s\<rparr>"

definition unnamed :: "string \<Rightarrow> tree_info" where
  "unnamed s = \<lparr>get_name = [], get_newick = s\<rparr>"

definition anywhere :: "string \<Rightarrow> bool" where
  "anywhere path = True"

definition all_but :: "string \<Rightarrow> string \<Rightarrow> bool" where
  "all_but refused path = (path \<noteq> refused)"

definition unknown_failure :: "tree_info list \<Rightarrow> parse_outcome" where
  "unknown_failure ts = \<lparr>raised = Some Other_thrown, collected = ts\<rparr>"

section \<open>Properties\<close>

subsection \<open>The loop counter\<close>

lemma unat_succ_u32:
  fixes i :: "32 word"
  assumes "unat i < n" and "n < 2 ^ 32"
  shows "unat (i + 1) = Suc (unat i)"
proof -
  have "unat i + 1 < 2 ^ 32"
    using assms by simp
  then have "unat (i + 1) = unat i + unat (1 :: 32 word)"
    by (simp add: unat_word_ariths)
  then show ?thesis
    by simp
qed

subsection \<open>The format catalog\<close>

lemma is_valid_format_loop_from:
  assumes "length ns < 2 ^ 32"
  shows "unat i \<le> length ns \<Longrightarrow>
    is_valid_format_loop ns f i = Some (f \<in> set (drop (unat i) ns))"
proof (induction "length ns - unat i" arbitrary: i)
  case 0
  then have "unat i = length ns"
    by simp
  then show ?case
    by (subst is_valid_format_loop.simps) simp
next
  case (Suc k)
  then have less: "unat i < length ns"
    by simp
  have next_i: "unat (i + 1) = Suc (unat i)"
    using less assms by (rule unat_succ_u32)
  have IH: "is_valid_format_loop ns f (i + 1) = Some (f \<in> set (drop (Suc (unat i)) ns))"
    using Suc.hyps(1) [of "i + 1"] Suc.hyps(2) less next_i by simp
  have split: "drop (unat i) ns = ns ! unat i # drop (Suc (unat i)) ns"
    using less by (simp add: Cons_nth_drop_Suc)
  show ?case
    by (subst is_valid_format_loop.simps) (auto simp: less IH split)
qed

lemma is_valid_format_member:
  "length (getFormatNames e) < 2 ^ 32 \<Longrightarrow>
   is_valid_format e f = Some (f \<in> set (getFormatNames e))"
  using is_valid_format_loop_from [of "getFormatNames e" 0 f]
  by (simp add: is_valid_format_def)

lemma display_valid_formats_loop_from:
  assumes "length ns < 2 ^ 32"
  shows "unat i \<le> length ns \<Longrightarrow>
    display_valid_formats_loop ns i w =
      Some (w\<lparr>cerr := cerr w @ concat (map (\<lambda>n. tab @ n @ endl) (drop (unat i) ns))\<rparr>)"
proof (induction "length ns - unat i" arbitrary: i w)
  case 0
  then have "unat i = length ns"
    by simp
  then show ?case
    by (subst display_valid_formats_loop.simps) simp
next
  case (Suc k)
  then have less: "unat i < length ns"
    by simp
  have next_i: "unat (i + 1) = Suc (unat i)"
    using less assms by (rule unat_succ_u32)
  have split: "drop (unat i) ns = ns ! unat i # drop (Suc (unat i)) ns"
    using less by (simp add: Cons_nth_drop_Suc)
  have "display_valid_formats_loop ns i w =
      display_valid_formats_loop ns (i + 1) (w\<lparr>cerr := cerr w @ tab @ ns ! unat i @ endl\<rparr>)"
    by (subst display_valid_formats_loop.simps) (simp add: less)
  also have "\<dots> = Some (w\<lparr>cerr := cerr w @ tab @ ns ! unat i @ endl
                      @ concat (map (\<lambda>n. tab @ n @ endl) (drop (Suc (unat i)) ns))\<rparr>)"
    using Suc.hyps(1) [of "i + 1"] Suc.hyps(2) less next_i by simp
  finally show ?case
    by (simp add: split)
qed

lemma display_valid_formats_all:
  "length (getFormatNames e) < 2 ^ 32 \<Longrightarrow>
   display_valid_formats e w =
     Some (w\<lparr>cerr := cerr w @ concat (map (\<lambda>n. tab @ n @ endl) (getFormatNames e))\<rparr>)"
  using display_valid_formats_loop_from [of "getFormatNames e" 0 w]
  by (simp add: display_valid_formats_def)

subsection \<open>The file writer\<close>

lemma spit_newick_out_writable:
  "writable e (c_str filename) \<Longrightarrow>
   spit_newick_out e contents filename w =
     (\<lparr>open_file = None, pending = [], failbit = False\<rparr>,
      w\<lparr>files := (files w)(c_str filename \<mapsto> contents @ '';'')\<rparr>)"
  by (simp add: spit_newick_out_def ofstream_open_def ofstream_put_def ofstream_close_def
      ofstream_new_def)

lemma spit_newick_out_refused:
  "\<not> writable e (c_str filename) \<Longrightarrow>
   spit_newick_out e contents filename w =
     (\<lparr>open_file = None, pending = [], failbit = True\<rparr>, w)"
  by (simp add: spit_newick_out_def ofstream_open_def ofstream_put_def ofstream_close_def
      ofstream_new_def)

lemma spit_newick_eq:
  "spit_newick e contents filename w =
     (if writable e (c_str filename)
      then w\<lparr>files := (files w)(c_str filename \<mapsto> contents @ '';'')\<rparr> else w)"
  by (simp add: spit_newick_def spit_newick_out_writable spit_newick_out_refused)

subsection \<open>The loop of \<^verbatim>\<open>extract_trees\<close>\<close>

lemma extract_trees_loop_from:
  assumes "length ts < 2 ^ 32"
  shows "unat i \<le> length ts \<Longrightarrow>
    extract_trees_loop e p ts i w =
      Some (foldl (\<lambda>w k. extract_tree e p (word_of_nat k) (ts ! k) w) w [unat i..<length ts])"
proof (induction "length ts - unat i" arbitrary: i w)
  case 0
  then have "unat i = length ts"
    by simp
  then show ?case
    by (subst extract_trees_loop.simps) simp
next
  case (Suc k)
  then have less: "unat i < length ts"
    by simp
  have next_i: "unat (i + 1) = Suc (unat i)"
    using less assms by (rule unat_succ_u32)
  have "extract_trees_loop e p ts i w =
      extract_trees_loop e p ts (i + 1) (extract_tree e p i (ts ! unat i) w)"
    by (subst extract_trees_loop.simps) (simp add: less)
  also have "\<dots> = Some (foldl (\<lambda>w k. extract_tree e p (word_of_nat k) (ts ! k) w)
                      (extract_tree e p i (ts ! unat i) w) [Suc (unat i)..<length ts])"
    using Suc.hyps(1) [of "i + 1"] Suc.hyps(2) less next_i by simp
  finally show ?case
    using less by (simp add: upt_conv_Cons)
qed

lemma extract_trees_loop_all:
  "length ts < 2 ^ 32 \<Longrightarrow>
   extract_trees_loop e p ts 0 w =
     Some (foldl (\<lambda>w k. extract_tree e p (word_of_nat k) (ts ! k) w) w [0..<length ts])"
  using extract_trees_loop_from [of ts 0 e p w] by simp

lemma extract_trees_parsed:
  assumes "parse e format (files w (c_str input)) = \<lparr>raised = None, collected = ts\<rparr>"
    and "ts \<noteq> []" and "length ts < 2 ^ 32"
  shows "extract_trees e input format p w =
     Some (Inr (foldl (\<lambda>w k. extract_tree e p (word_of_nat k) (ts ! k) w) w [0..<length ts]))"
  using assms
  by (simp add: extract_trees_def parse_input_def tree_parser_new_def extract_trees_loop_all)

lemma decimal_digit: "n < 10 \<Longrightarrow> decimal n = [digit n]"
  by (simp add: decimal.simps)

lemma unat_of_position:
  "k < n \<Longrightarrow> n < 2 ^ 32 \<Longrightarrow> unat (word_of_nat k :: 32 word) = k"
  by (simp add: unat_of_nat)

lemma foldl_cong_positions:
  "(\<And>w k. k \<in> set ks \<Longrightarrow> f w k = g w k) \<Longrightarrow> foldl f w ks = foldl g w ks"
  by (induction ks arbitrary: w) simp_all

lemma extract_trees_run:
  assumes "parse_input e input (tree_parser_new format) w = Inr (parser, w')"
    and "get_trees parser \<noteq> []" and "length (get_trees parser) < 2 ^ 32"
  shows "extract_trees e input format p w =
     Some (Inr (foldl (\<lambda>w k. extract_tree e p (word_of_nat k) (get_trees parser ! k) w) w'
        [0..<length (get_trees parser)]))"
  using assms by (simp add: extract_trees_def extract_trees_loop_all Let_def)

lemma extract_trees_empty:
  assumes "parse_input e input (tree_parser_new format) w = Inr (parser, w')"
    and "get_trees parser = []"
  shows "extract_trees e input format p w = Some (Inl (Thrown_no_trees, w'))"
  using assms by (simp add: extract_trees_def)

lemma upt_split_at: "j < n \<Longrightarrow> [0..<n] = [0..<j] @ j # [Suc j..<n]"
proof -
  assume "j < n"
  then have "[0..<j + (n - j)] = [0..<j] @ [j..<j + (n - j)]"
    by (intro upt_add_eq_append) simp
  then show ?thesis
    using \<open>j < n\<close> by (simp add: upt_conv_Cons)
qed

lemma foldl_skip:
  "(\<And>w k. k \<in> set ks \<Longrightarrow> \<not> P k \<Longrightarrow> f w k = w) \<Longrightarrow> foldl f w (filter P ks) = foldl f w ks"
  by (induction ks arbitrary: w) simp_all

subsection \<open>One tree, and a run of trees, on the files\<close>

lemma extract_tree_eq:
  "extract_tree e p i t w =
     (if writable e (c_str (output_name p i t @ ''.tre''))
      then w\<lparr>files := (files w)(c_str (output_name p i t @ ''.tre'') \<mapsto> get_newick t @ '';'')\<rparr>
      else w)"
  by (simp add: extract_tree_def spit_newick_eq)

lemma extract_tree_refused:
  "\<not> writable e (c_str (output_name p i t @ ''.tre'')) \<Longrightarrow> extract_tree e p i t w = w"
  by (simp add: extract_tree_eq)

lemma extract_tree_files_other:
  "x \<noteq> c_str (output_name p i t @ ''.tre'') \<Longrightarrow> files (extract_tree e p i t w) x = files w x"
  by (simp add: extract_tree_eq)

lemma extract_tree_files_add:
  "\<exists>m. \<forall>w. extract_tree e p i t w = w\<lparr>files := files w ++ m\<rparr>"
proof (cases "writable e (c_str (output_name p i t @ ''.tre''))")
  case True
  then have "\<forall>w. extract_tree e p i t w =
      w\<lparr>files := files w ++ [c_str (output_name p i t @ ''.tre'') \<mapsto> get_newick t @ '';'']\<rparr>"
    by (simp add: extract_tree_eq)
  then show ?thesis
    by (rule exI [where x = "[c_str (output_name p i t @ ''.tre'') \<mapsto> get_newick t @ '';'']"])
next
  case False
  then have "\<forall>w. extract_tree e p i t w = w\<lparr>files := files w ++ Map.empty\<rparr>"
    by (simp add: extract_tree_eq)
  then show ?thesis
    by (rule exI [where x = Map.empty])
qed

lemma foldl_files_untouched:
  "(\<And>k. k \<in> set ks \<Longrightarrow> x \<noteq> c_str (output_name p (word_of_nat k) (ts ! k) @ ''.tre'')) \<Longrightarrow>
   files (foldl (\<lambda>w k. extract_tree e p (word_of_nat k) (ts ! k) w) w ks) x = files w x"
  by (induction ks arbitrary: w) (simp_all add: extract_tree_files_other)

lemma foldl_files_add:
  "\<exists>m. \<forall>w. foldl (\<lambda>w k. extract_tree e p (word_of_nat k) (ts ! k) w) w ks
     = w\<lparr>files := files w ++ m\<rparr>"
proof (induction ks)
  case Nil
  have "\<forall>w::world. foldl (\<lambda>w k. extract_tree e p (word_of_nat k) (ts ! k) w) w []
      = w\<lparr>files := files w ++ Map.empty\<rparr>"
    by simp
  then show ?case
    by (rule exI [where x = Map.empty])
next
  case (Cons k ks)
  then obtain m where rest: "\<And>w. foldl (\<lambda>w k. extract_tree e p (word_of_nat k) (ts ! k) w) w ks
      = w\<lparr>files := files w ++ m\<rparr>"
    by (elim exE) simp
  obtain a where first:
    "\<And>w. extract_tree e p (word_of_nat k) (ts ! k) w = w\<lparr>files := files w ++ a\<rparr>"
    using extract_tree_files_add [of e p "word_of_nat k" "ts ! k"] by (elim exE) simp
  have "\<forall>w. foldl (\<lambda>w k. extract_tree e p (word_of_nat k) (ts ! k) w) w (k # ks)
      = w\<lparr>files := files w ++ (a ++ m)\<rparr>"
    by (simp add: rest first)
  then show ?case
    by (rule exI [where x = "a ++ m"])
qed

subsection \<open>The program up to the extraction\<close>

lemma main_invalid_format:
  assumes "\<not> opt_help vm" and "opt_input vm = Some input" and "opt_format vm = Some format"
    and "length (getFormatNames e) < 2 ^ 32" and "format \<notin> set (getFormatNames e)"
  shows "main e vm w =
     Some (Returned 1,
       w\<lparr>cerr := cerr w @ ''invalid input format: '' @ endl @ endl @ ''valid formats:'' @ endl
             @ concat (map (\<lambda>n. tab @ n @ endl) (getFormatNames e))\<rparr>)"
  using assms by (simp add: main_def is_valid_format_member display_valid_formats_all)

lemma main_valid_format:
  assumes "\<not> opt_help vm" and "opt_input vm = Some input" and "opt_format vm = Some format"
    and "length (getFormatNames e) < 2 ^ 32" and "format \<in> set (getFormatNames e)"
  shows "main e vm w =
     map_option
       (\<lambda>r. case r of
           Inl (Exit_called status, w') \<Rightarrow> (Exited status, w')
         | Inl (Thrown_no_trees, w') \<Rightarrow> (Terminated no_trees_what, w')
         | Inr w' \<Rightarrow> (Returned 0, w'))
       (extract_trees e input format (case opt_prefix vm of Some p \<Rightarrow> p | None \<Rightarrow> ''tree'') w)"
  using assms
  by (cases "extract_trees e input format
        (case opt_prefix vm of Some p \<Rightarrow> p | None \<Rightarrow> ''tree'') w")
    (simp_all add: main_def is_valid_format_member)

subsection \<open>Two runs compared\<close>

lemma output_name_named: "get_name t \<noteq> [] \<Longrightarrow> output_name p i t = get_name t"
  by (simp add: output_name_def)

lemma extract_tree_files_agree:
  "files a x = files b x \<Longrightarrow> output_name p i t = output_name q i t \<Longrightarrow>
   files (extract_tree e p i t a) x = files (extract_tree e q i t b) x"
  by (simp add: extract_tree_eq)

lemma foldl_files_agree:
  assumes "\<And>k. k \<in> set ks \<Longrightarrow> get_name (ts ! k) = [] \<Longrightarrow>
      x \<noteq> c_str (output_name p (word_of_nat k) (ts ! k) @ ''.tre'')
      \<and> x \<noteq> c_str (output_name q (word_of_nat k) (ts ! k) @ ''.tre'')"
  shows "files (foldl (\<lambda>w k. extract_tree e p (word_of_nat k) (ts ! k) w) w ks) x =
     files (foldl (\<lambda>w k. extract_tree e q (word_of_nat k) (ts ! k) w) w ks) x"
  using assms
proof (induction ks rule: rev_induct)
  case Nil
  show ?case
    by simp
next
  case (snoc k ks)
  let ?a = "foldl (\<lambda>w k. extract_tree e p (word_of_nat k) (ts ! k) w) w ks"
  let ?b = "foldl (\<lambda>w k. extract_tree e q (word_of_nat k) (ts ! k) w) w ks"
  have before: "files ?a x = files ?b x"
  proof (rule snoc.IH)
    fix j
    assume "j \<in> set ks" and "get_name (ts ! j) = []"
    then show "x \<noteq> c_str (output_name p (word_of_nat j) (ts ! j) @ ''.tre'')
      \<and> x \<noteq> c_str (output_name q (word_of_nat j) (ts ! j) @ ''.tre'')"
      using snoc.prems [of j] by simp
  qed
  show ?case
  proof (cases "get_name (ts ! k) = []")
    case True
    have "k \<in> set (ks @ [k])"
      by simp
    then have "x \<noteq> c_str (output_name p (word_of_nat k) (ts ! k) @ ''.tre'')
      \<and> x \<noteq> c_str (output_name q (word_of_nat k) (ts ! k) @ ''.tre'')"
      using True by (rule snoc.prems)
    then show ?thesis
      using before by (simp add: extract_tree_files_other)
  next
    case False
    then have "output_name p (word_of_nat k) (ts ! k) = output_name q (word_of_nat k) (ts ! k)"
      by (simp add: output_name_named)
    with before have "files (extract_tree e p (word_of_nat k) (ts ! k) ?a) x =
        files (extract_tree e q (word_of_nat k) (ts ! k) ?b) x"
      by (rule extract_tree_files_agree)
    then show ?thesis
      by simp
  qed
qed

lemma map_add_twice: "(f ++ m) ++ m = f ++ m"
  by (rule ext) (simp add: map_add_def split: option.split)

lemma main_files_add:
  assumes names: "length (getFormatNames e) < 2 ^ 32"
    and trees: "\<forall>format stream. length (collected (parse e format stream)) < 2 ^ 32"
  shows "\<exists>out m. \<forall>w.
     (\<forall>input. opt_input vm = Some input \<longrightarrow> files w (c_str input) = stream) \<longrightarrow>
     (\<exists>w'. main e vm w = Some (out, w') \<and> files w' = files w ++ m)"
proof -
  have unchanged: ?thesis
    if "\<And>w. \<forall>input. opt_input vm = Some input \<longrightarrow> files w (c_str input) = stream
          \<Longrightarrow> main e vm w = Some (out, f w)"
      and "\<And>w. files (f w) = files w" for out f
  proof -
    have "\<forall>w. (\<forall>input. opt_input vm = Some input \<longrightarrow> files w (c_str input) = stream) \<longrightarrow>
        (\<exists>w'. main e vm w = Some (out, w') \<and> files w' = files w ++ Map.empty)"
      using that by simp
    then show ?thesis
      by blast
  qed
  show ?thesis
  proof (cases "opt_help vm")
    case True
    show ?thesis
      by (rule unchanged [of "Returned 0" "\<lambda>w. w\<lparr>cout := cout w @ desc e @ endl\<rparr>"])
        (simp_all add: main_def True)
  next
    case no_help: False
    show ?thesis
    proof (cases "opt_input vm")
      case None
      show ?thesis
        by (rule unchanged [of "Returned 1"
              "\<lambda>w. w\<lparr>cerr := cerr w @ ''required option, --input, missing'' @ endl @ desc e @ endl\<rparr>"])
          (simp_all add: main_def no_help None)
    next
      case (Some input)
      show ?thesis
      proof (cases "opt_format vm")
        case None
        show ?thesis
          by (rule unchanged [of "Returned 1"
                "\<lambda>w. w\<lparr>cerr := cerr w @ ''required option, --format, missing'' @ endl
                                @ desc e @ endl\<rparr>"])
            (simp_all add: main_def no_help Some None)
      next
        case format: (Some format)
        show ?thesis
        proof (cases "format \<in> set (getFormatNames e)")
          case False
          show ?thesis
            by (rule unchanged [of "Returned 1"
                  "\<lambda>w. w\<lparr>cerr := cerr w @ ''invalid input format: '' @ endl @ endl
                      @ ''valid formats:'' @ endl
                      @ concat (map (\<lambda>n. tab @ n @ endl) (getFormatNames e))\<rparr>"])
              (simp_all add: main_invalid_format [OF no_help Some format names False])
        next
          case True
          let ?p = "case opt_prefix vm of Some p \<Rightarrow> p | None \<Rightarrow> ''tree''"
          let ?res = "parse e format stream"
          let ?ts = "collected ?res"
          note run = main_valid_format [OF no_help Some format names True]
          have bound: "length ?ts < 2 ^ 32"
            using trees by simp
          obtain m where fold:
            "\<And>w. foldl (\<lambda>w k. extract_tree e ?p (word_of_nat k) (?ts ! k) w) w [0..<length ?ts]
               = w\<lparr>files := files w ++ m\<rparr>"
            using foldl_files_add [of e ?p ?ts "[0..<length ?ts]"] by (elim exE) simp
          show ?thesis
          proof (cases "raised ?res")
            case None
            show ?thesis
            proof (cases "?ts = []")
              case True
              show ?thesis
                by (rule unchanged [of "Terminated no_trees_what" "\<lambda>w. w"])
                  (simp_all add: run extract_trees_def parse_input_def tree_parser_new_def
                    Some None True)
            next
              case False
              have "\<forall>w. (\<forall>input. opt_input vm = Some input \<longrightarrow> files w (c_str input) = stream) \<longrightarrow>
                  (\<exists>w'. main e vm w = Some (Returned 0, w') \<and> files w' = files w ++ m)"
                using bound False
                by (simp add: run extract_trees_def parse_input_def tree_parser_new_def Some None
                    extract_trees_loop_all fold)
              then show ?thesis
                by blast
            qed
          next
            case thrown: (Some t)
            show ?thesis
            proof (cases t)
              case (NxsException x)
              show ?thesis
                by (rule unchanged [of "Exited 1" "\<lambda>w. w\<lparr>cerr := cerr w @ x @ endl\<rparr>"])
                  (simp_all add: run extract_trees_def parse_input_def tree_parser_new_def
                    Some thrown NxsException)
            next
              case (Std_exception x)
              show ?thesis
                by (rule unchanged [of "Exited 1" "\<lambda>w. w\<lparr>cerr := cerr w @ x @ endl\<rparr>"])
                  (simp_all add: run extract_trees_def parse_input_def tree_parser_new_def
                    Some thrown Std_exception)
            next
              case Other_thrown
              show ?thesis
              proof (cases "?ts = []")
                case True
                show ?thesis
                  by (rule unchanged [of "Terminated no_trees_what"
                        "\<lambda>w. w\<lparr>cerr := cerr w @ ''unknown exception occurred while parsing tree''
                                    @ endl\<rparr>"])
                    (simp_all add: run extract_trees_def parse_input_def tree_parser_new_def
                      Some thrown Other_thrown True)
              next
                case False
                have "\<forall>w. (\<forall>input. opt_input vm = Some input \<longrightarrow> files w (c_str input) = stream) \<longrightarrow>
                    (\<exists>w'. main e vm w = Some (Returned 0, w') \<and> files w' = files w ++ m)"
                  using bound False
                  by (simp add: run extract_trees_def parse_input_def tree_parser_new_def Some
                      thrown Other_thrown extract_trees_loop_all fold)
                then show ?thesis
                  by blast
              qed
            qed
          qed
        qed
      qed
    qed
  qed
qed

section \<open>The claims\<close>

text \<open>
  C1. When the input parses into the trees \<open>ts\<close> (at least one, and no more than an
  \<^verbatim>\<open>unsigned\<close> can count), \<^verbatim>\<open>extract_trees\<close> returns, and what it has done is to call
  the file writer once for every position \<open>i = 0, 1, \<dots>\<close>, in this order, on the
  tree's Newick string and on the file name \<open>name.tre\<close>, where \<open>name\<close> is the tree's own
  name when that is not empty and the prefix, an underscore and the decimal digits of
  \<open>i\<close> when it is: \<open>i\<close> is the position among all the trees, named or not.
\<close>

theorem extract_trees_output_names:
  assumes "parse e format (files w (c_str input)) = \<lparr>raised = None, collected = ts\<rparr>"
    and "ts \<noteq> []" and "length ts < 2 ^ 32"
  shows "extract_trees e input format prefix w =
     Some (Inr (foldl
       (\<lambda>w i. spit_newick e (get_newick (ts ! i))
          ((if get_name (ts ! i) = [] then prefix @ ''_'' @ decimal i else get_name (ts ! i))
             @ ''.tre'') w)
       w [0..<length ts]))"
proof -
  have "extract_tree e prefix (word_of_nat i) (ts ! i) v =
      spit_newick e (get_newick (ts ! i))
        ((if get_name (ts ! i) = [] then prefix @ ''_'' @ decimal i else get_name (ts ! i))
           @ ''.tre'') v"
    if "i \<in> set [0..<length ts]" for i v
  proof -
    have "unat (word_of_nat i :: 32 word) = i"
      using that assms(3) by (simp add: unat_of_position)
    then show ?thesis
      by (simp add: extract_tree_def output_name_def lexical_cast_def)
  qed
  then have "foldl (\<lambda>w k. extract_tree e prefix (word_of_nat k) (ts ! k) w) w [0..<length ts] =
      foldl (\<lambda>w i. spit_newick e (get_newick (ts ! i))
          ((if get_name (ts ! i) = [] then prefix @ ''_'' @ decimal i else get_name (ts ! i))
             @ ''.tre'') w) w [0..<length ts]"
    by (rule foldl_cong_positions)
  then show ?thesis
    using extract_trees_parsed [OF assms] by simp
qed

theorem extract_trees_output_names_witness:
  "extract_trees (catalog_env (parsed [named ''A'' ''(a,b)'', unnamed ''(c,d)'']) anywhere)
     ''in.nex'' ''nexus'' ''tree'' blank =
   Some (Inr (blank\<lparr>files := [''A.tre'' \<mapsto> ''(a,b);'', ''tree_1.tre'' \<mapsto> ''(c,d);'']\<rparr>))"
  using extract_trees_output_names
    [where e = "catalog_env (parsed [named ''A'' ''(a,b)'', unnamed ''(c,d)'']) anywhere"
      and format = "''nexus''" and input = "''in.nex''"
      and ts = "[named ''A'' ''(a,b)'', unnamed ''(c,d)'']" and prefix = "''tree''" and w = blank]
  by (simp add: catalog_env_def parsed_def named_def unnamed_def anywhere_def blank_def
      spit_newick_eq c_str_def decimal_digit digit_def)

text \<open>
  C2. When \<^verbatim>\<open>spit_newick\<close> returns, its stream is closed and holds no pending
  character, on every path. On a file name that can be opened, it leaves in the file
  exactly the string it was given followed by one semicolon, whatever the file held
  before and without a newline, and it changes nothing else.
\<close>

theorem spit_newick_contents:
  "open_file (fst (spit_newick_out e S filename w)) = None
   \<and> pending (fst (spit_newick_out e S filename w)) = []
   \<and> (writable e (c_str filename) \<longrightarrow>
        spit_newick e S filename w = w\<lparr>files := (files w)(c_str filename \<mapsto> S @ '';'')\<rparr>)"
proof (cases "writable e (c_str filename)")
  case True
  then show ?thesis
    by (simp add: spit_newick_def spit_newick_out_writable)
next
  case False
  then show ?thesis
    by (simp add: spit_newick_out_refused)
qed

theorem spit_newick_contents_witness:
  "writable (catalog_env (parsed []) anywhere) (c_str ''A.tre'')
   \<and> spit_newick (catalog_env (parsed []) anywhere) ''(a,b)'' ''A.tre''
        (blank\<lparr>files := [''A.tre'' \<mapsto> ''old contents'', ''B.tre'' \<mapsto> ''(c,d);'']\<rparr>)
      = blank\<lparr>files := [''A.tre'' \<mapsto> ''(a,b);'', ''B.tre'' \<mapsto> ''(c,d);'']\<rparr>"
proof -
  have can: "writable (catalog_env (parsed []) anywhere) (c_str ''A.tre'')"
    by (simp add: catalog_env_def anywhere_def)
  have "spit_newick (catalog_env (parsed []) anywhere) ''(a,b)'' ''A.tre''
        (blank\<lparr>files := [''A.tre'' \<mapsto> ''old contents'', ''B.tre'' \<mapsto> ''(c,d);'']\<rparr>)
      = (blank\<lparr>files := [''A.tre'' \<mapsto> ''old contents'', ''B.tre'' \<mapsto> ''(c,d);'']\<rparr>)
          \<lparr>files := (files (blank\<lparr>files := [''A.tre'' \<mapsto> ''old contents'',
              ''B.tre'' \<mapsto> ''(c,d);'']\<rparr>))(c_str ''A.tre'' \<mapsto> ''(a,b)'' @ '';'')\<rparr>"
    using can spit_newick_contents [of "catalog_env (parsed []) anywhere" "''(a,b)''" "''A.tre''"
        "blank\<lparr>files := [''A.tre'' \<mapsto> ''old contents'', ''B.tre'' \<mapsto> ''(c,d);'']\<rparr>"]
    by blast
  then show ?thesis
    using can by (simp add: c_str_def fun_upd_twist)
qed

text \<open>
  C3. A run that gets past the options with a format of the catalog, and whose input
  parses without an exception into no tree at all, ends in \<^verbatim>\<open>std::terminate\<close> on
  the \<^verbatim>\<open>no_trees\<close> exception, whose \<^verbatim>\<open>what()\<close> is the fixed message: the process
  does not exit with status 0, and the world is as it was, so no file has been written
  (and the program itself has printed nothing).
\<close>

theorem no_trees_terminates:
  assumes "\<not> opt_help vm" and "opt_input vm = Some input" and "opt_format vm = Some format"
    and "length (getFormatNames e) < 2 ^ 32" and "format \<in> set (getFormatNames e)"
    and "parse e format (files w (c_str input)) = \<lparr>raised = None, collected = []\<rparr>"
  shows "main e vm w =
      Some (Terminated ''the file was parsed successfully, but no trees were found'', w)
    \<and> exits_nonzero (Terminated ''the file was parsed successfully, but no trees were found'')"
proof -
  have "parse_input e input (tree_parser_new format) w =
      Inr (\<lparr>parser_format = format, get_trees = []\<rparr>, w)"
    using assms(6) by (simp add: parse_input_def tree_parser_new_def)
  then have "extract_trees e input format p w = Some (Inl (Thrown_no_trees, w))" for p
    by (rule extract_trees_empty) simp
  then show ?thesis
    using main_valid_format [OF assms(1-5), of w] by (simp add: no_trees_what_def)
qed

theorem no_trees_terminates_witness:
  "main (catalog_env (parsed []) anywhere) request (blank\<lparr>files := [''A.tre'' \<mapsto> ''old'']\<rparr>) =
     Some (Terminated ''the file was parsed successfully, but no trees were found'',
           blank\<lparr>files := [''A.tre'' \<mapsto> ''old'']\<rparr>)"
  using no_trees_terminates [where vm = request and input = "''in.nex''"
      and format = "''nexus''" and e = "catalog_env (parsed []) anywhere"
      and w = "blank\<lparr>files := [''A.tre'' \<mapsto> ''old'']\<rparr>"]
  by (simp add: request_def catalog_env_def parsed_def)

text \<open>
  C4. The specification asks that a parsing failure of the unknown kind be reported and
  that the process then end without extracting or writing a tree. Here is the run where
  the parsing library throws something that is not a \<^verbatim>\<open>std::exception\<close> while the
  parser holds one tree, named \<open>A\<close>: the last handler of \<^verbatim>\<open>parse_input\<close> prints its message and, unlike
  the two handlers before it, does not call \<^verbatim>\<open>exit\<close>, so \<^verbatim>\<open>extract_trees\<close> goes on,
  the file \<open>A.tre\<close> is written, and \<^verbatim>\<open>main\<close> returns 0.
\<close>

theorem unknown_exception_run:
  "main (catalog_env (unknown_failure [named ''A'' ''(a,b)'']) anywhere) request blank =
     Some (Returned 0,
       blank\<lparr>files := [''A.tre'' \<mapsto> ''(a,b);''],
             cerr := ''unknown exception occurred while parsing tree'' @ endl\<rparr>)"
proof -
  let ?e = "catalog_env (unknown_failure [named ''A'' ''(a,b)'']) anywhere"
  have "parse_input ?e ''in.nex'' (tree_parser_new ''nexus'') blank =
      Inr (\<lparr>parser_format = ''nexus'', get_trees = [named ''A'' ''(a,b)'']\<rparr>,
           blank\<lparr>cerr := ''unknown exception occurred while parsing tree'' @ endl\<rparr>)"
    by (simp add: parse_input_def tree_parser_new_def catalog_env_def unknown_failure_def
        blank_def)
  then have "extract_trees ?e ''in.nex'' ''nexus'' ''tree'' blank =
      Some (Inr (blank\<lparr>files := [''A.tre'' \<mapsto> ''(a,b);''],
             cerr := ''unknown exception occurred while parsing tree'' @ endl\<rparr>))"
    by (simp add: extract_trees_run extract_tree_def output_name_def spit_newick_eq
        named_def catalog_env_def anywhere_def c_str_def blank_def)
  then show ?thesis
    using main_valid_format [of request "''in.nex''" "''nexus''" ?e blank]
    by (simp add: request_def catalog_env_def)
qed

text \<open>
  C5. The specification asks that the run stop at a tree whose file cannot be written.
  It does not: with two trees \<open>A\<close> and \<open>B\<close>, where \<open>A.tre\<close> cannot be opened, the run writes
  \<open>B.tre\<close> and \<^verbatim>\<open>main\<close> returns 0, having printed nothing.
\<close>

theorem refused_file_counterexample:
  "\<not> writable (catalog_env (parsed [named ''A'' ''(a,b)'', named ''B'' ''(c,d)''])
        (all_but ''A.tre'')) (c_str ''A.tre'')
   \<and> main (catalog_env (parsed [named ''A'' ''(a,b)'', named ''B'' ''(c,d)''])
        (all_but ''A.tre'')) request blank =
     Some (Returned 0, blank\<lparr>files := [''B.tre'' \<mapsto> ''(c,d);'']\<rparr>)"
proof -
  let ?ts = "[named ''A'' ''(a,b)'', named ''B'' ''(c,d)'']"
  let ?e = "catalog_env (parsed ?ts) (all_but ''A.tre'')"
  have "extract_trees ?e ''in.nex'' ''nexus'' ''tree'' blank =
      Some (Inr (blank\<lparr>files := [''B.tre'' \<mapsto> ''(c,d);'']\<rparr>))"
    using extract_trees_parsed [where e = ?e and format = "''nexus''" and input = "''in.nex''"
        and ts = ?ts and p = "''tree''" and w = blank]
    by (simp add: extract_tree_def output_name_def spit_newick_eq parsed_def
        named_def catalog_env_def all_but_def c_str_def blank_def)
  then show ?thesis
    using main_valid_format [of request "''in.nex''" "''nexus''" ?e blank]
    by (simp add: request_def catalog_env_def all_but_def c_str_def)
qed

text \<open>
  C5, as the code has it. When the file of the tree at position \<open>k\<close> cannot be opened,
  that tree is passed over without a trace, and \<^verbatim>\<open>extract_trees\<close> still returns
  normally: its effect is the effect of the loop on all the other positions, each
  tree still handled under its own position.
\<close>

theorem refused_file_skipped:
  assumes "parse e format (files w (c_str input)) = \<lparr>raised = None, collected = ts\<rparr>"
    and "length ts < 2 ^ 32" and "k < length ts"
    and "\<not> writable e (c_str (output_name prefix (word_of_nat k) (ts ! k) @ ''.tre''))"
  shows "extract_trees e input format prefix w =
     Some (Inr (foldl (\<lambda>w i. extract_tree e prefix (word_of_nat i) (ts ! i) w) w
        (filter (\<lambda>i. i \<noteq> k) [0..<length ts])))"
proof -
  have "ts \<noteq> []"
    using assms(3) by auto
  then have run: "extract_trees e input format prefix w =
      Some (Inr (foldl (\<lambda>w i. extract_tree e prefix (word_of_nat i) (ts ! i) w) w [0..<length ts]))"
    using assms(1,2) by (simp add: extract_trees_parsed)
  have "foldl (\<lambda>w i. extract_tree e prefix (word_of_nat i) (ts ! i) w) w
        (filter (\<lambda>i. i \<noteq> k) [0..<length ts]) =
      foldl (\<lambda>w i. extract_tree e prefix (word_of_nat i) (ts ! i) w) w [0..<length ts]"
    by (rule foldl_skip) (simp add: assms(4) extract_tree_refused)
  with run show ?thesis
    by simp
qed

theorem refused_file_skipped_witness:
  "extract_trees (catalog_env (parsed [named ''A'' ''(a,b)'', named ''B'' ''(c,d)''])
       (all_but ''A.tre'')) ''in.nex'' ''nexus'' ''tree'' blank =
     Some (Inr (blank\<lparr>files := [''B.tre'' \<mapsto> ''(c,d);'']\<rparr>))"
  using refused_file_skipped
    [where e = "catalog_env (parsed [named ''A'' ''(a,b)'', named ''B'' ''(c,d)''])
        (all_but ''A.tre'')"
      and format = "''nexus''" and input = "''in.nex''"
      and ts = "[named ''A'' ''(a,b)'', named ''B'' ''(c,d)'']" and k = 0
      and prefix = "''tree''" and w = blank]
  by (simp add: catalog_env_def parsed_def named_def all_but_def output_name_def c_str_def
      extract_tree_eq blank_def)

text \<open>
  C6. A run that gets past \<^verbatim>\<open>--help\<close> and \<^verbatim>\<open>--input\<close> with a format that is not in
  the catalog returns 1 from \<^verbatim>\<open>main\<close>, having written to the error stream the error
  line, an empty line, the heading and then every name of the catalog, in order, each
  after a tab and on a line of its own. Nothing else has changed, no file in
  particular, and the result is the same whatever the parsing library would answer and
  whichever paths can be written: neither has been asked.
\<close>

theorem invalid_format_rejected:
  assumes "\<not> opt_help vm" and "opt_input vm = Some input" and "opt_format vm = Some format"
    and "length (getFormatNames e) < 2 ^ 32" and "format \<notin> set (getFormatNames e)"
  shows "main (e\<lparr>parse := library, writable := can_write\<rparr>) vm w =
     Some (Returned 1,
       w\<lparr>cerr := cerr w @ ''invalid input format: '' @ endl @ endl @ ''valid formats:'' @ endl
             @ concat (map (\<lambda>n. tab @ n @ endl) (getFormatNames e))\<rparr>)"
  using assms
    main_invalid_format [of vm input format "e\<lparr>parse := library, writable := can_write\<rparr>" w]
  by simp

theorem invalid_format_rejected_witness:
  "main (catalog_env (parsed [named ''A'' ''(a,b)'']) anywhere)
     (request\<lparr>opt_format := Some ''NEXUS''\<rparr>) blank =
     Some (Returned 1,
       blank\<lparr>cerr := ''invalid input format: '' @ endl @ endl @ ''valid formats:'' @ endl
             @ tab @ ''nexus'' @ endl @ tab @ ''phyliptree'' @ endl\<rparr>)"
  using invalid_format_rejected
    [where vm = "request\<lparr>opt_format := Some ''NEXUS''\<rparr>" and input = "''in.nex''"
      and format = "''NEXUS''" and e = "catalog_env (parsed []) anywhere"
      and library = "parse (catalog_env (parsed [named ''A'' ''(a,b)'']) anywhere)"
      and can_write = anywhere and w = blank]
  by (simp add: request_def catalog_env_def blank_def)

text \<open>
  C7. On a catalog that an \<^verbatim>\<open>unsigned\<close> can index, \<^verbatim>\<open>is_valid_format\<close> returns, and
  it returns true exactly for the strings that are equal, byte for byte, to one of the
  names of \<^verbatim>\<open>getFormatNames()\<close>: true for every name of the catalog, false for every
  other string.
\<close>

theorem is_valid_format_iff_member:
  "length (getFormatNames e) < 2 ^ 32 \<Longrightarrow>
   is_valid_format e s = Some (s \<in> set (getFormatNames e))"
  using is_valid_format_loop_from [of "getFormatNames e" 0 s]
  by (simp add: is_valid_format_def)

theorem is_valid_format_iff_member_witness:
  "length (getFormatNames (catalog_env (parsed []) anywhere)) < 2 ^ 32
   \<and> is_valid_format (catalog_env (parsed []) anywhere) ''nexus'' = Some True
   \<and> is_valid_format (catalog_env (parsed []) anywhere) ''Nexus'' = Some False"
proof -
  have small: "length (getFormatNames (catalog_env (parsed []) anywhere)) < 2 ^ 32"
    by (simp add: catalog_env_def)
  show ?thesis
    using small is_valid_format_iff_member [OF small, of "''nexus''"]
      is_valid_format_iff_member [OF small, of "''Nexus''"]
    by (simp add: catalog_env_def)
qed

text \<open>
  C8. Let the trees at the positions \<open>i < j\<close> resolve to the same output name, let no
  tree after \<open>j\<close> be written to that file, and let the file be one that can be opened.
  Then \<^verbatim>\<open>extract_trees\<close> returns normally, and the file holds the Newick string of the
  tree at \<open>j\<close> followed by a semicolon: nothing renames the later tree, and what the
  tree at \<open>i\<close> wrote is gone.
\<close>

theorem last_write_wins:
  assumes "parse e format (files w (c_str input)) = \<lparr>raised = None, collected = ts\<rparr>"
    and "length ts < 2 ^ 32" and "i < j" and "j < length ts"
    and "output_name prefix (word_of_nat i) (ts ! i) = output_name prefix (word_of_nat j) (ts ! j)"
    and "\<forall>k. j < k \<and> k < length ts \<longrightarrow>
           c_str (output_name prefix (word_of_nat k) (ts ! k) @ ''.tre'')
           \<noteq> c_str (output_name prefix (word_of_nat j) (ts ! j) @ ''.tre'')"
    and "writable e (c_str (output_name prefix (word_of_nat j) (ts ! j) @ ''.tre''))"
  shows "\<exists>w'. extract_trees e input format prefix w = Some (Inr w')
     \<and> files w' (c_str (output_name prefix (word_of_nat i) (ts ! i) @ ''.tre''))
         = Some (get_newick (ts ! j) @ '';'')"
proof -
  let ?step = "\<lambda>w k. extract_tree e prefix (word_of_nat k) (ts ! k) w"
  let ?path = "c_str (output_name prefix (word_of_nat j) (ts ! j) @ ''.tre'')"
  have "ts \<noteq> []"
    using assms(4) by auto
  then have run: "extract_trees e input format prefix w =
      Some (Inr (foldl ?step w [0..<length ts]))"
    using assms(1,2) by (simp add: extract_trees_parsed)
  have "[0..<length ts] = [0..<j] @ j # [Suc j..<length ts]"
    using assms(4) by (rule upt_split_at)
  then have "foldl ?step w [0..<length ts] =
      foldl ?step (?step (foldl ?step w [0..<j]) j) [Suc j..<length ts]"
    by simp
  moreover have "files (foldl ?step (?step (foldl ?step w [0..<j]) j) [Suc j..<length ts]) ?path
      = files (?step (foldl ?step w [0..<j]) j) ?path"
  proof (rule foldl_files_untouched)
    fix k
    assume "k \<in> set [Suc j..<length ts]"
    then have "j < k \<and> k < length ts"
      by simp
    with assms(6) have "c_str (output_name prefix (word_of_nat k) (ts ! k) @ ''.tre'') \<noteq> ?path"
      by blast
    then show "?path \<noteq> c_str (output_name prefix (word_of_nat k) (ts ! k) @ ''.tre'')"
      by (rule not_sym)
  qed
  moreover have "files (?step (foldl ?step w [0..<j]) j) ?path = Some (get_newick (ts ! j) @ '';'')"
    using assms(7) by (simp add: extract_tree_eq)
  ultimately have "files (foldl ?step w [0..<length ts]) ?path = Some (get_newick (ts ! j) @ '';'')"
    by simp
  with run show ?thesis
    by (simp add: assms(5))
qed

theorem last_write_wins_witness:
  "\<exists>w'. extract_trees (catalog_env (parsed [named ''A'' ''(a,b)'', named ''A'' ''(c,d)'']) anywhere)
       ''in.nex'' ''nexus'' ''tree'' blank = Some (Inr w')
     \<and> files w' ''A.tre'' = Some ''(c,d);''"
  using last_write_wins
    [where e = "catalog_env (parsed [named ''A'' ''(a,b)'', named ''A'' ''(c,d)'']) anywhere"
      and format = "''nexus''" and input = "''in.nex''"
      and ts = "[named ''A'' ''(a,b)'', named ''A'' ''(c,d)'']" and i = 0 and j = 1
      and prefix = "''tree''" and w = blank]
  by (simp add: catalog_env_def parsed_def named_def anywhere_def output_name_def c_str_def)

text \<open>
  C9. Run the program on a world, and then again, with the same options and the same
  surroundings, on the world the first run left. The first run ends; and when the input
  file still holds what it held before the first run, so that the second run is on the
  same input, the second run ends in the same way and leaves every file exactly as the
  first left it: a file that is written again is truncated first, so it holds the same
  bytes. (The catalog and the parsed trees are no more than an \<^verbatim>\<open>unsigned\<close> can
  count.)
\<close>

theorem second_run_same_files:
  assumes "length (getFormatNames e) < 2 ^ 32"
    and "\<forall>format stream. length (collected (parse e format stream)) < 2 ^ 32"
  shows "\<exists>out w1. main e vm w = Some (out, w1)
     \<and> ((\<forall>input. opt_input vm = Some input \<longrightarrow> files w1 (c_str input) = files w (c_str input))
        \<longrightarrow> (\<exists>w2. main e vm w1 = Some (out, w2) \<and> files w2 = files w1))"
proof -
  define stream where
    "stream = (case opt_input vm of None \<Rightarrow> None | Some input \<Rightarrow> files w (c_str input))"
  obtain out m where run:
    "\<And>v. \<forall>input. opt_input vm = Some input \<longrightarrow> files v (c_str input) = stream
       \<Longrightarrow> \<exists>v'. main e vm v = Some (out, v') \<and> files v' = files v ++ m"
    using main_files_add [OF assms, of vm stream] by blast
  have "\<forall>input. opt_input vm = Some input \<longrightarrow> files w (c_str input) = stream"
    by (simp add: stream_def)
  then obtain w1 where first: "main e vm w = Some (out, w1)" "files w1 = files w ++ m"
    using run [of w] by blast
  have "\<exists>w2. main e vm w1 = Some (out, w2) \<and> files w2 = files w1"
    if same: "\<forall>input. opt_input vm = Some input \<longrightarrow> files w1 (c_str input) = files w (c_str input)"
  proof -
    have "\<forall>input. opt_input vm = Some input \<longrightarrow> files w1 (c_str input) = stream"
      using same by (simp add: stream_def)
    then obtain w2 where second: "main e vm w1 = Some (out, w2)" "files w2 = files w1 ++ m"
      using run [of w1] by blast
    have "files w2 = files w1"
      using first(2) second(2) by (simp add: map_add_twice)
    with second(1) show ?thesis
      by blast
  qed
  with first(1) show ?thesis
    by blast
qed

theorem second_run_same_files_witness:
  "main (catalog_env (parsed [named ''A'' ''(a,b)'', unnamed ''(c,d)'']) anywhere) request
       (blank\<lparr>files := [''A.tre'' \<mapsto> ''old'']\<rparr>) =
     Some (Returned 0, blank\<lparr>files := [''A.tre'' \<mapsto> ''(a,b);'', ''tree_1.tre'' \<mapsto> ''(c,d);'']\<rparr>)
   \<and> (\<exists>w2.
        main (catalog_env (parsed [named ''A'' ''(a,b)'', unnamed ''(c,d)'']) anywhere) request
          (blank\<lparr>files := [''A.tre'' \<mapsto> ''(a,b);'', ''tree_1.tre'' \<mapsto> ''(c,d);'']\<rparr>)
          = Some (Returned 0, w2)
        \<and> files w2 = [''A.tre'' \<mapsto> ''(a,b);'', ''tree_1.tre'' \<mapsto> ''(c,d);''])"
proof -
  let ?ts = "[named ''A'' ''(a,b)'', unnamed ''(c,d)'']"
  let ?e = "catalog_env (parsed ?ts) anywhere"
  let ?w = "blank\<lparr>files := [''A.tre'' \<mapsto> ''old'']\<rparr>"
  let ?w1 = "blank\<lparr>files := [''A.tre'' \<mapsto> ''(a,b);'', ''tree_1.tre'' \<mapsto> ''(c,d);'']\<rparr>"
  have "extract_trees ?e ''in.nex'' ''nexus'' ''tree'' ?w = Some (Inr ?w1)"
    using extract_trees_parsed [where e = ?e and format = "''nexus''" and input = "''in.nex''"
        and ts = ?ts and p = "''tree''" and w = ?w]
    by (simp add: catalog_env_def parsed_def named_def unnamed_def anywhere_def blank_def
        extract_tree_eq output_name_def lexical_cast_def c_str_def decimal_digit digit_def)
  then have first: "main ?e request ?w = Some (Returned 0, ?w1)"
    using main_valid_format [of request "''in.nex''" "''nexus''" ?e ?w]
    by (simp add: request_def catalog_env_def)
  have "\<exists>out w1. main ?e request ?w = Some (out, w1)
     \<and> ((\<forall>input. opt_input request = Some input \<longrightarrow> files w1 (c_str input) = files ?w (c_str input))
        \<longrightarrow> (\<exists>w2. main ?e request w1 = Some (out, w2) \<and> files w2 = files w1))"
    by (rule second_run_same_files) (simp_all add: catalog_env_def parsed_def)
  then have "(\<forall>input. opt_input request = Some input \<longrightarrow> files ?w1 (c_str input) = files ?w (c_str input))
        \<longrightarrow> (\<exists>w2. main ?e request ?w1 = Some (Returned 0, w2) \<and> files w2 = files ?w1)"
    by (simp add: first)
  moreover have "\<forall>input. opt_input request = Some input \<longrightarrow> files ?w1 (c_str input) = files ?w (c_str input)"
    by (simp add: request_def c_str_def blank_def)
  ultimately have "\<exists>w2. main ?e request ?w1 = Some (Returned 0, w2) \<and> files w2 = files ?w1"
    by (rule mp)
  with first show ?thesis
    by (simp add: blank_def)
qed

text \<open>
  C10. The specification's reading is that two runs which differ only in the prefix
  leave identical files for every named tree. They need not: an unnamed tree's
  synthesized name can be the name of a named tree. With the tree \<open>t_1\<close> at position 0
  and an unnamed tree at position 1, the prefix \<open>tree\<close> leaves \<open>(a,b);\<close> in \<open>t_1.tre\<close>,
  the named tree's Newick string, while the prefix \<open>t\<close> sends the unnamed tree to
  \<open>t_1.tre\<close> as well, after the named one, and leaves \<open>(c,d);\<close> there.
\<close>

theorem named_tree_file_counterexample:
  "get_name (named ''t_1'' ''(a,b)'') \<noteq> []
   \<and> extract_trees (catalog_env (parsed [named ''t_1'' ''(a,b)'', unnamed ''(c,d)'']) anywhere)
       ''in.nex'' ''nexus'' ''tree'' blank =
     Some (Inr (blank\<lparr>files := [''t_1.tre'' \<mapsto> ''(a,b);'', ''tree_1.tre'' \<mapsto> ''(c,d);'']\<rparr>))
   \<and> extract_trees (catalog_env (parsed [named ''t_1'' ''(a,b)'', unnamed ''(c,d)'']) anywhere)
       ''in.nex'' ''nexus'' ''t'' blank =
     Some (Inr (blank\<lparr>files := [''t_1.tre'' \<mapsto> ''(c,d);'']\<rparr>))"
proof -
  let ?ts = "[named ''t_1'' ''(a,b)'', unnamed ''(c,d)'']"
  let ?e = "catalog_env (parsed ?ts) anywhere"
  have with_tree: "extract_trees ?e ''in.nex'' ''nexus'' ''tree'' blank =
      Some (Inr (blank\<lparr>files := [''t_1.tre'' \<mapsto> ''(a,b);'', ''tree_1.tre'' \<mapsto> ''(c,d);'']\<rparr>))"
    using extract_trees_parsed [where e = ?e and format = "''nexus''" and input = "''in.nex''"
        and ts = ?ts and p = "''tree''" and w = blank]
    by (simp add: catalog_env_def parsed_def named_def unnamed_def anywhere_def blank_def
        extract_tree_eq output_name_def lexical_cast_def c_str_def decimal_digit digit_def)
  have with_t: "extract_trees ?e ''in.nex'' ''nexus'' ''t'' blank =
      Some (Inr (blank\<lparr>files := [''t_1.tre'' \<mapsto> ''(c,d);'']\<rparr>))"
    using extract_trees_parsed [where e = ?e and format = "''nexus''" and input = "''in.nex''"
        and ts = ?ts and p = "''t''" and w = blank]
    by (simp add: catalog_env_def parsed_def named_def unnamed_def anywhere_def blank_def
        extract_tree_eq output_name_def lexical_cast_def c_str_def decimal_digit digit_def)
  show ?thesis
    using with_tree with_t by (simp add: named_def)
qed

text \<open>
  C10, as the code has it. Take two runs of \<^verbatim>\<open>extract_trees\<close> on the same parsed
  trees and the same world, one with the prefix \<open>p\<close> and one with the prefix \<open>q\<close>. Both
  return normally. For every tree with a name, the output name is the same in both runs,
  and so is the whole step of writing that tree: the file name and the contents handed
  to the file writer do not depend on the prefix. And the files the two runs leave can
  differ only at the file names of the unnamed trees: every other path holds the same in
  both, so a named tree's file is the same in both runs unless an unnamed tree is
  written to that very path in one of them.
\<close>

theorem named_trees_ignore_prefix:
  assumes "parse e format (files w (c_str input)) = \<lparr>raised = None, collected = ts\<rparr>"
    and "ts \<noteq> []" and "length ts < 2 ^ 32"
  shows "\<exists>wp wq.
     extract_trees e input format p w = Some (Inr wp)
     \<and> extract_trees e input format q w = Some (Inr wq)
     \<and> (\<forall>i. i < length ts \<and> get_name (ts ! i) \<noteq> [] \<longrightarrow>
           output_name p (word_of_nat i) (ts ! i) = output_name q (word_of_nat i) (ts ! i)
           \<and> extract_tree e p (word_of_nat i) (ts ! i) = extract_tree e q (word_of_nat i) (ts ! i))
     \<and> (\<forall>path.
           (\<forall>i. i < length ts \<and> get_name (ts ! i) = [] \<longrightarrow>
              path \<noteq> c_str (output_name p (word_of_nat i) (ts ! i) @ ''.tre'')
              \<and> path \<noteq> c_str (output_name q (word_of_nat i) (ts ! i) @ ''.tre''))
           \<longrightarrow> files wp path = files wq path)"
proof -
  let ?wp = "foldl (\<lambda>w k. extract_tree e p (word_of_nat k) (ts ! k) w) w [0..<length ts]"
  let ?wq = "foldl (\<lambda>w k. extract_tree e q (word_of_nat k) (ts ! k) w) w [0..<length ts]"
  have run_p: "extract_trees e input format p w = Some (Inr ?wp)"
    and run_q: "extract_trees e input format q w = Some (Inr ?wq)"
    using assms by (simp_all add: extract_trees_parsed)
  have named: "output_name p (word_of_nat i) (ts ! i) = output_name q (word_of_nat i) (ts ! i)
      \<and> extract_tree e p (word_of_nat i) (ts ! i) = extract_tree e q (word_of_nat i) (ts ! i)"
    if "get_name (ts ! i) \<noteq> []" for i
    using that by (simp add: output_name_named extract_tree_def fun_eq_iff)
  have others: "files ?wp path = files ?wq path"
    if "\<forall>i. i < length ts \<and> get_name (ts ! i) = [] \<longrightarrow>
          path \<noteq> c_str (output_name p (word_of_nat i) (ts ! i) @ ''.tre'')
          \<and> path \<noteq> c_str (output_name q (word_of_nat i) (ts ! i) @ ''.tre'')" for path
    by (rule foldl_files_agree) (use that in simp)
  show ?thesis
  proof (intro exI conjI allI impI)
    show "extract_trees e input format p w = Some (Inr ?wp)"
      by (rule run_p)
    show "extract_trees e input format q w = Some (Inr ?wq)"
      by (rule run_q)
  qed (simp_all add: named others)
qed

theorem named_trees_ignore_prefix_witness:
  "\<exists>wp wq.
     extract_trees (catalog_env (parsed [named ''A'' ''(a,b)'', unnamed ''(c,d)'']) anywhere)
       ''in.nex'' ''nexus'' ''tree'' blank = Some (Inr wp)
     \<and> extract_trees (catalog_env (parsed [named ''A'' ''(a,b)'', unnamed ''(c,d)'']) anywhere)
       ''in.nex'' ''nexus'' ''t'' blank = Some (Inr wq)
     \<and> output_name ''tree'' 0 (named ''A'' ''(a,b)'') = output_name ''t'' 0 (named ''A'' ''(a,b)'')
     \<and> files wp ''A.tre'' = files wq ''A.tre''"
proof -
  let ?ts = "[named ''A'' ''(a,b)'', unnamed ''(c,d)'']"
  let ?e = "catalog_env (parsed ?ts) anywhere"
  have "\<exists>wp wq.
     extract_trees ?e ''in.nex'' ''nexus'' ''tree'' blank = Some (Inr wp)
     \<and> extract_trees ?e ''in.nex'' ''nexus'' ''t'' blank = Some (Inr wq)
     \<and> (\<forall>i. i < length ?ts \<and> get_name (?ts ! i) \<noteq> [] \<longrightarrow>
           output_name ''tree'' (word_of_nat i) (?ts ! i) = output_name ''t'' (word_of_nat i) (?ts ! i)
           \<and> extract_tree ?e ''tree'' (word_of_nat i) (?ts ! i)
             = extract_tree ?e ''t'' (word_of_nat i) (?ts ! i))
     \<and> (\<forall>path.
           (\<forall>i. i < length ?ts \<and> get_name (?ts ! i) = [] \<longrightarrow>
              path \<noteq> c_str (output_name ''tree'' (word_of_nat i) (?ts ! i) @ ''.tre'')
              \<and> path \<noteq> c_str (output_name ''t'' (word_of_nat i) (?ts ! i) @ ''.tre''))
           \<longrightarrow> files wp path = files wq path)"
    by (rule named_trees_ignore_prefix) (simp_all add: catalog_env_def parsed_def)
  then obtain wp wq where
    run_p: "extract_trees ?e ''in.nex'' ''nexus'' ''tree'' blank = Some (Inr wp)" and
    run_q: "extract_trees ?e ''in.nex'' ''nexus'' ''t'' blank = Some (Inr wq)" and
    named: "\<And>i. i < length ?ts \<and> get_name (?ts ! i) \<noteq> [] \<Longrightarrow>
           output_name ''tree'' (word_of_nat i) (?ts ! i) = output_name ''t'' (word_of_nat i) (?ts ! i)" and
    others: "\<And>path.
           (\<forall>i. i < length ?ts \<and> get_name (?ts ! i) = [] \<longrightarrow>
              path \<noteq> c_str (output_name ''tree'' (word_of_nat i) (?ts ! i) @ ''.tre'')
              \<and> path \<noteq> c_str (output_name ''t'' (word_of_nat i) (?ts ! i) @ ''.tre''))
           \<Longrightarrow> files wp path = files wq path"
    by blast
  have name: "output_name ''tree'' 0 (named ''A'' ''(a,b)'') = output_name ''t'' 0 (named ''A'' ''(a,b)'')"
    using named [of 0] by (simp add: named_def)
  have "files wp ''A.tre'' = files wq ''A.tre''"
  proof (rule others, intro allI impI)
    fix i
    assume "i < length ?ts \<and> get_name (?ts ! i) = []"
    then have "i = 1"
      by (cases i) (simp_all add: named_def)
    then show "''A.tre'' \<noteq> c_str (output_name ''tree'' (word_of_nat i) (?ts ! i) @ ''.tre'')
        \<and> ''A.tre'' \<noteq> c_str (output_name ''t'' (word_of_nat i) (?ts ! i) @ ''.tre'')"
      by (simp add: output_name_def unnamed_def c_str_def lexical_cast_def decimal_digit digit_def)
  qed
  with run_p run_q name show ?thesis
    by blast
qed

end
